theory Spec2Isabelle
  imports Main
begin

section \<open>Python values\<close>

text \<open>
  A Python \<open>str\<close> is a sequence of Unicode code points, so it is modelled as a list of
  natural numbers; \<open>lit\<close> turns an ASCII literal of the script into that form. The one
  character of the script beyond ASCII is the arrow U+2192 of the f-string, code point 8594.
  Python's integers are \<open>int\<close>.
\<close>

type_synonym str = "nat list"

definition lit :: "string \<Rightarrow> str" where
  "lit s = map of_char s"

definition arrow :: nat where
  "arrow = 8594"

definition newline :: nat where
  "newline = 10"

datatype py_error = ValueError | IndexError | OverflowError

section \<open>The library functions the script calls\<close>

subsection \<open>Formatting integers\<close>

text \<open>\<open>str(n)\<close> for a natural number: its decimal digits, most significant first.\<close>

fun digits10 :: "nat \<Rightarrow> str" where
  "digits10 n = (if n < 10 then [48 + n] else digits10 (n div 10) @ [48 + n mod 10])"

declare digits10.simps [simp del]

definition zero_pad :: "nat \<Rightarrow> str \<Rightarrow> str" where
  "zero_pad w s = replicate (w - length s) 48 @ s"

text \<open>
  The format specification \<open>0wd\<close> (\<open>f"{i:03d}"\<close> has \<open>w = 3\<close>): decimal, padded with
  zeros on the left to width \<open>w\<close>, the sign before the zeros, nothing cut when the number
  is wider.
\<close>

definition format_0d :: "nat \<Rightarrow> int \<Rightarrow> str" where
  "format_0d w i =
     (if i < 0 then 45 # zero_pad (w - 1) (digits10 (nat (- i)))
      else zero_pad w (digits10 (nat i)))"

subsection \<open>Ranges and joining\<close>

text \<open>\<open>range(a, b)\<close>: the integers from \<open>a\<close> up to, not including, \<open>b\<close>.\<close>

definition py_range :: "int \<Rightarrow> int \<Rightarrow> int list" where
  "py_range a b = [a..b - 1]"

text \<open>\<open>sep.join(xs)\<close>: the separator between neighbours only, none after the last.\<close>

fun join :: "str \<Rightarrow> str list \<Rightarrow> str" where
  "join sep [] = []"
| "join sep [x] = x"
| "join sep (x # y # ys) = x @ sep @ join sep (y # ys)"

subsection \<open>The random module\<close>

text \<open>
  The generator's state is abstracted to the raw natural number \<open>r\<close> it yields at a call.
  \<open>randbelow n\<close> brings it into \<open>0..<n\<close>; every number of that range is the result for
  some \<open>r\<close>. \<open>randint a b\<close> is \<open>randrange(a, b + 1)\<close> and raises ValueError on an empty
  range; \<open>choice\<close> raises IndexError on an empty sequence.
\<close>

definition randbelow :: "nat \<Rightarrow> nat \<Rightarrow> nat" where
  "randbelow n r = r mod n"

definition randint :: "int \<Rightarrow> int \<Rightarrow> nat \<Rightarrow> py_error + int" where
  "randint a b r =
     (let width = b + 1 - a
      in if 0 < width then Inr (a + int (randbelow (nat width) r)) else Inl ValueError)"

definition choice :: "'a list \<Rightarrow> nat \<Rightarrow> py_error + 'a" where
  "choice seq r =
     (if length seq = 0 then Inl IndexError else Inr (seq ! randbelow (length seq) r))"

subsection \<open>The datetime module\<close>

text \<open>
  A naive \<open>datetime\<close> is a point of the proleptic Gregorian calendar at microsecond
  resolution: it is modelled as the number of microseconds since \<open>datetime.min\<close>
  (0001-01-01 00:00:00). \<open>datetime.max\<close> is the last microsecond of day 3652059.
  A \<open>timedelta\<close> is a signed number of microseconds. Subtracting a timedelta raises
  OverflowError when the result leaves the range of datetimes.
\<close>

type_synonym datetime = nat

type_synonym timedelta = int

definition max_micros :: nat where
  "max_micros = 3652059 * 86400000000"

definition timedelta_minutes :: "int \<Rightarrow> timedelta" where
  "timedelta_minutes m = m * 60000000"

definition datetime_sub :: "datetime \<Rightarrow> timedelta \<Rightarrow> py_error + datetime" where
  "datetime_sub t d =
     (let r = int t - d
      in if 0 \<le> r \<and> r < int max_micros then Inr (nat r) else Inl OverflowError)"

definition hour :: "datetime \<Rightarrow> nat" where
  "hour t = (t div 3600000000) mod 24"

definition minute :: "datetime \<Rightarrow> nat" where
  "minute t = (t div 60000000) mod 60"

text \<open>\<open>strftime("%H:%M")\<close>: hour and minute, each as two digits.\<close>

definition strftime_HM :: "datetime \<Rightarrow> str" where
  "strftime_HM t = format_0d 2 (int (hour t)) @ lit '':'' @ format_0d 2 (int (minute t))"

subsection \<open>The json module\<close>

text \<open>
  \<open>json.dumps\<close> with its defaults on a dictionary from strings to strings. A dictionary
  keeps its insertion order, so it is an association list. Strings are written by
  \<open>encode_basestring_ascii\<close>: everything outside the printable ASCII range, the double
  quote and the backslash are escaped; code points from 65536 on become a surrogate pair.
\<close>

definition hexdigit :: "nat \<Rightarrow> nat" where
  "hexdigit d = (if d < 10 then 48 + d else 87 + d)"

definition hex4 :: "nat \<Rightarrow> str" where
  "hex4 n = [hexdigit (n div 4096 mod 16), hexdigit (n div 256 mod 16),
             hexdigit (n div 16 mod 16), hexdigit (n mod 16)]"

definition escape_char :: "nat \<Rightarrow> str" where
  "escape_char c =
     (if c = 92 then [92, 92]
      else if c = 34 then [92, 34]
      else if c = 8 then [92, 98]
      else if c = 12 then [92, 102]
      else if c = 10 then [92, 110]
      else if c = 13 then [92, 114]
      else if c = 9 then [92, 116]
      else if 32 \<le> c \<and> c \<le> 126 then [c]
      else if c < 65536 then [92, 117] @ hex4 c
      else (let n = c - 65536
            in [92, 117] @ hex4 (55296 + n div 1024 mod 1024) @
               [92, 117] @ hex4 (56320 + n mod 1024)))"

definition encode_basestring_ascii :: "str \<Rightarrow> str" where
  "encode_basestring_ascii s = [34] @ concat (map escape_char s) @ [34]"

definition json_dumps :: "(str \<times> str) list \<Rightarrow> str" where
  "json_dumps d =
     lit ''{'' @
     join (lit '', '')
       (map (\<lambda>(k, v). encode_basestring_ascii k @ lit '': '' @ encode_basestring_ascii v) d) @
     lit ''}''"

section \<open>The script\<close>

text \<open>
  What the script reads from outside during one pass of its loop: the clock
  (\<open>datetime.datetime.now()\<close>) and two draws of the random generator, the first for
  \<open>randint\<close>, the second for \<open>choice\<close>. A \<open>world\<close> gives these for every pass,
  counted from 0.
\<close>

record outcome =
  now :: datetime
  randint_draw :: nat
  choice_draw :: nat

type_synonym world = "nat \<Rightarrow> outcome"

definition user_ids :: "str list" where
  "user_ids = map (\<lambda>i. lit ''user'' @ format_0d 3 i) (py_range 1 501)"

definition login_time :: "outcome \<Rightarrow> py_error + datetime" where
  "login_time oc =
     (case randint 0 1440 (randint_draw oc) of
        Inl e \<Rightarrow> Inl e
      | Inr m \<Rightarrow> datetime_sub (now oc) (timedelta_minutes m))"

definition status :: "outcome \<Rightarrow> py_error + str" where
  "status oc = choice [lit ''active'', lit ''inactive'', lit ''expired''] (choice_draw oc)"

definition session_data :: "str \<Rightarrow> outcome \<Rightarrow> py_error + (str \<times> str) list" where
  "session_data user_id oc =
     (case login_time oc of
        Inl e \<Rightarrow> Inl e
      | Inr t \<Rightarrow>
          (case status oc of
             Inl e \<Rightarrow> Inl e
           | Inr s \<Rightarrow>
               Inr [(lit ''userId'', user_id),
                    (lit ''loginTime'', strftime_HM t),
                    (lit ''status'', s)]))"

text \<open>The f-string appended to \<open>sessions\<close>.\<close>

definition session_entry :: "str \<Rightarrow> (str \<times> str) list \<Rightarrow> str" where
  "session_entry user_id d =
     lit ''session:'' @ user_id @ lit '' '' @ [arrow] @ lit '' '' @ json_dumps d"

text \<open>
  The loop over \<open>user_ids\<close>: \<open>i\<close> counts the passes, the last argument is the list
  \<open>sessions\<close> built so far. An exception ends the loop.
\<close>

fun sessions_loop :: "world \<Rightarrow> nat \<Rightarrow> str list \<Rightarrow> str list \<Rightarrow> py_error + str list" where
  "sessions_loop w i [] sessions = Inr sessions"
| "sessions_loop w i (user_id # rest) sessions =
     (case session_data user_id (w i) of
        Inl e \<Rightarrow> Inl e
      | Inr d \<Rightarrow> sessions_loop w (Suc i) rest (sessions @ [session_entry user_id d]))"

definition sessions :: "world \<Rightarrow> py_error + str list" where
  "sessions w = sessions_loop w 0 user_ids []"

text \<open>
  The text handed to \<open>f.write\<close> for \<open>user_sessions.txt\<close>. The file is opened only
  after the loop, so an exception in the loop leaves no file written; the closing \<open>print\<close>
  does not touch the file.
\<close>

definition user_sessions_txt :: "world \<Rightarrow> py_error + str" where
  "user_sessions_txt w =
     (case sessions w of
        Inl e \<Rightarrow> Inl e
      | Inr ss \<Rightarrow> Inr (join [newline] ss))"

section \<open>The properties, in the words of the specification\<close>

text \<open>\<open>s.split(c)\<close> for a separator of one character.\<close>

fun split_from :: "nat \<Rightarrow> str \<Rightarrow> str \<Rightarrow> str list" where
  "split_from c cur [] = [cur]"
| "split_from c cur (x # xs) =
     (if x = c then cur # split_from c [] xs else split_from c (cur @ [x]) xs)"

definition split :: "str \<Rightarrow> nat \<Rightarrow> str list" where
  "split s c = split_from c [] s"

text \<open>Decimal digits, and the number a string of digits denotes.\<close>

definition is_digit :: "nat \<Rightarrow> bool" where
  "is_digit c = (48 \<le> c \<and> c \<le> 57)"

definition number :: "str \<Rightarrow> nat" where
  "number s = foldl (\<lambda>a c. 10 * a + (c - 48)) 0 s"

text \<open>A number below 1000 (below 100) zero-padded to three (two) digits.\<close>

definition pad3 :: "nat \<Rightarrow> str" where
  "pad3 n = [48 + n div 100, 48 + n div 10 mod 10, 48 + n mod 10]"

definition pad2 :: "nat \<Rightarrow> str" where
  "pad2 n = [48 + n div 10, 48 + n mod 10]"

text \<open>The pattern \<open>user\<close> followed by three digits.\<close>

definition matches_user_id :: "str \<Rightarrow> bool" where
  "matches_user_id s =
     (length s = 7 \<and> take 4 s = lit ''user'' \<and> list_all is_digit (drop 4 s))"

text \<open>The pattern \<open>HH:MM\<close> with \<open>HH\<close> in 00..23 and \<open>MM\<close> in 00..59.\<close>

definition matches_HH_MM :: "str \<Rightarrow> bool" where
  "matches_HH_MM s =
     (length s = 5 \<and> list_all is_digit (take 2 s) \<and> s ! 2 = 58 \<and> list_all is_digit (drop 3 s) \<and>
      number (take 2 s) \<le> 23 \<and> number (drop 3 s) \<le> 59)"

text \<open>
  The line format of the output: \<open>session:<userId>\<close>, the arrow between two spaces, and
  the JSON object with the fields \<open>userId\<close>, \<open>loginTime\<close> and \<open>status\<close> in this order.
\<close>

definition session_line :: "str \<Rightarrow> str \<Rightarrow> str \<Rightarrow> str" where
  "session_line u t s =
     lit ''session:'' @ u @ lit '' '' @ [arrow] @ lit '' '' @
     lit ''{\"userId\": \"'' @ u @ lit ''\", \"loginTime\": \"'' @ t @
     lit ''\", \"status\": \"'' @ s @ lit ''\"}''"

text \<open>
  Reading a line back: the id of the key is what stands between \<open>session:\<close> and the next
  space; the \<open>userId\<close> of the value is what stands between the opening of the JSON object
  after the arrow, \<open>{"userId": "\<close>, and the next double quote.
\<close>

definition key_id :: "str \<Rightarrow> str" where
  "key_id line = takeWhile (\<lambda>c. c \<noteq> 32) (drop 8 line)"

definition json_userId :: "str \<Rightarrow> str" where
  "json_userId line =
     takeWhile (\<lambda>c. c \<noteq> 34) (drop 12 (drop 2 (dropWhile (\<lambda>c. c \<noteq> arrow) line)))"

text \<open>
  \<open>generated w content i d\<close>: in the run in world \<open>w\<close> that wrote \<open>content\<close>, the
  dictionary \<open>session_data\<close> of pass \<open>i\<close> is \<open>d\<close>, and line \<open>i\<close> of the content
  (counted from 0) is the entry made from it.
\<close>

definition generated :: "world \<Rightarrow> str \<Rightarrow> nat \<Rightarrow> (str \<times> str) list \<Rightarrow> bool" where
  "generated w content i d =
     (session_data (user_ids ! i) (w i) = Inr d \<and>
      split content newline ! i = session_entry (user_ids ! i) d)"

text \<open>
  A clock reading at least 24 hours after \<open>datetime.min\<close> and not after
  \<open>datetime.max\<close>: every reading of a real clock.
\<close>

definition clock_in_range :: "outcome \<Rightarrow> bool" where
  "clock_in_range oc = (86400000000 \<le> now oc \<and> now oc < max_micros)"

text \<open>The characters \<open>encode_basestring_ascii\<close> leaves as they are.\<close>

definition plain :: "nat \<Rightarrow> bool" where
  "plain c = (32 \<le> c \<and> c \<le> 126 \<and> c \<noteq> 34 \<and> c \<noteq> 92)"

section \<open>Two example runs\<close>

text \<open>
  In the first world every pass reads the same clock, draws 7 for \<open>randint\<close> and 4 for
  \<open>choice\<close>: each login time is 07:53 and each status is \<open>inactive\<close>. In the second
  the draws are 1440 and 0: each login time is 08:00 and each status is \<open>active\<close>.
\<close>

definition example_world :: world where
  "example_world i = \<lparr>now = 63900000000000000, randint_draw = 7, choice_draw = 4\<rparr>"

definition example_data :: "str \<Rightarrow> (str \<times> str) list" where
  "example_data u =
     [(lit ''userId'', u), (lit ''loginTime'', lit ''07:53''), (lit ''status'', lit ''inactive'')]"

definition example_txt :: str where
  "example_txt = join [newline] (map (\<lambda>u. session_entry u (example_data u)) user_ids)"

definition other_world :: world where
  "other_world i = \<lparr>now = 63900000000000000, randint_draw = 1440, choice_draw = 0\<rparr>"

definition other_data :: "str \<Rightarrow> (str \<times> str) list" where
  "other_data u =
     [(lit ''userId'', u), (lit ''loginTime'', lit ''08:00''), (lit ''status'', lit ''active'')]"

definition other_txt :: str where
  "other_txt = join [newline] (map (\<lambda>u. session_entry u (other_data u)) user_ids)"

section \<open>Facts about the library functions\<close>

lemma digits10_1: "n < 10 \<Longrightarrow> digits10 n = [48 + n]"
  by (simp add: digits10.simps)

lemma digits10_2: "10 \<le> n \<Longrightarrow> n < 100 \<Longrightarrow> digits10 n = [48 + n div 10, 48 + n mod 10]"
  by (subst digits10.simps) (simp add: digits10_1)

lemma digits10_3:
  "100 \<le> n \<Longrightarrow> n < 1000 \<Longrightarrow> digits10 n = [48 + n div 100, 48 + n div 10 mod 10, 48 + n mod 10]"
  by (subst digits10.simps) (simp add: digits10_2 div_mult2_eq [symmetric])

lemma format_0d_3: "n < 1000 \<Longrightarrow> format_0d 3 (int n) = pad3 n"
proof -
  assume n: "n < 1000"
  consider "n < 10" | "10 \<le> n" "n < 100" | "100 \<le> n"
    by linarith
  then show ?thesis
  proof cases
    case 1
    then show ?thesis
      by (simp add: format_0d_def zero_pad_def digits10_1 pad3_def numeral_2_eq_2)
  next
    case 2
    then have "n div 100 = 0" by simp
    with 2 show ?thesis
      by (simp add: format_0d_def zero_pad_def digits10_2 pad3_def)
  next
    case 3
    with n show ?thesis
      by (simp add: format_0d_def zero_pad_def digits10_3 pad3_def)
  qed
qed

lemma format_0d_2: "n < 100 \<Longrightarrow> format_0d 2 (int n) = pad2 n"
proof (cases "n < 10")
  case True
  then show ?thesis
    by (simp add: format_0d_def zero_pad_def digits10_1 pad2_def)
next
  case False
  assume "n < 100"
  with False show ?thesis
    by (simp add: format_0d_def zero_pad_def digits10_2 pad2_def)
qed

lemma length_user_ids: "length user_ids = 500"
  by (simp add: user_ids_def py_range_def)

lemma nth_user_ids: "k < 500 \<Longrightarrow> user_ids ! k = lit ''user'' @ pad3 (Suc k)"
proof -
  assume k: "k < 500"
  have e: "1 + int k = int (Suc k)" by simp
  from k have "format_0d 3 (int (Suc k)) = pad3 (Suc k)"
    by (intro format_0d_3) simp
  with k show ?thesis
    by (simp only: user_ids_def py_range_def e) simp
qed

lemma randint_0_1440: "randint 0 1440 r = Inr (int (r mod 1441))"
  by (simp add: randint_def randbelow_def)

lemma status_eq:
  "status oc = Inr ([lit ''active'', lit ''inactive'', lit ''expired''] ! (choice_draw oc mod 3))"
  by (simp add: status_def choice_def randbelow_def)

lemma login_time_eq:
  "login_time oc =
     (let m = randint_draw oc mod 1441
      in if m * 60000000 \<le> now oc \<and> now oc - m * 60000000 < max_micros
         then Inr (now oc - m * 60000000) else Inl OverflowError)"
  by (auto simp add: login_time_def randint_0_1440 datetime_sub_def timedelta_minutes_def Let_def
           nat_diff_distrib' nat_mult_distrib)

lemma split_from_no_sep: "c \<notin> set x \<Longrightarrow> split_from c cur x = [cur @ x]"
  by (induction x arbitrary: cur) auto

lemma split_from_sep:
  "c \<notin> set x \<Longrightarrow> split_from c cur (x @ c # rest) = (cur @ x) # split_from c [] rest"
  by (induction x arbitrary: cur) auto

lemma split_from_join:
  "ls \<noteq> [] \<Longrightarrow> \<forall>l \<in> set ls. c \<notin> set l \<Longrightarrow> split_from c [] (join [c] ls) = ls"
proof (induction "[c]" ls rule: join.induct)
  case 1
  then show ?case by simp
next
  case (2 x)
  then show ?case by (simp add: split_from_no_sep)
next
  case (3 x y ys)
  then show ?case by (simp add: split_from_sep)
qed

lemma count_join:
  "ls \<noteq> [] \<Longrightarrow> \<forall>l \<in> set ls. c \<notin> set l \<Longrightarrow> count_list (join [c] ls) c = length ls - 1"
proof (induction "[c]" ls rule: join.induct)
  case 1
  then show ?case by simp
next
  case (2 x)
  then show ?case by (simp add: count_list_0_iff)
next
  case (3 x y ys)
  then show ?case by (simp add: count_list_0_iff)
qed

lemma join_not_Nil: "ls \<noteq> [] \<Longrightarrow> last ls \<noteq> [] \<Longrightarrow> join sep ls \<noteq> []"
  by (induction sep ls rule: join.induct) auto

lemma last_join: "ls \<noteq> [] \<Longrightarrow> last ls \<noteq> [] \<Longrightarrow> last (join sep ls) = last (last ls)"
proof (induction sep ls rule: join.induct)
  case (3 sep x y ys)
  then have "join sep (y # ys) \<noteq> []"
    by (intro join_not_Nil) auto
  with 3 show ?case by simp
qed auto

lemma set_join: "set (join sep ls) \<subseteq> set sep \<union> \<Union> (set ` set ls)"
  by (induction sep ls rule: join.induct) auto

lemma hexdigit_ge: "48 \<le> hexdigit d"
  by (simp add: hexdigit_def)

lemma newline_hex4: "newline \<notin> set (hex4 n)"
  using hexdigit_ge [of "n div 4096 mod 16"] hexdigit_ge [of "n div 256 mod 16"]
    hexdigit_ge [of "n div 16 mod 16"] hexdigit_ge [of "n mod 16"]
  by (auto simp add: hex4_def newline_def)

lemma newline_escape_char: "newline \<notin> set (escape_char c)"
  using newline_hex4 by (auto simp add: escape_char_def Let_def newline_def)

lemma newline_encode: "newline \<notin> set (encode_basestring_ascii s)"
  using newline_escape_char by (auto simp add: encode_basestring_ascii_def newline_def)

lemma newline_json_dumps: "newline \<notin> set (json_dumps d)"
proof -
  let ?items = "map (\<lambda>(k, v). encode_basestring_ascii k @ lit '': '' @ encode_basestring_ascii v) d"
  have items: "\<forall>l \<in> set ?items. newline \<notin> set l"
    using newline_encode by (auto simp add: lit_def newline_def)
  have sep: "newline \<notin> set (lit '', '')"
    by (simp add: lit_def newline_def)
  have "newline \<notin> set (join (lit '', '') ?items)"
    using set_join [of "lit '', ''" ?items] items sep by blast
  then show ?thesis
    by (simp add: json_dumps_def lit_def newline_def)
qed

lemma escape_plain: "plain c \<Longrightarrow> escape_char c = [c]"
  by (auto simp add: plain_def escape_char_def)

lemma encode_plain: "list_all plain s \<Longrightarrow> encode_basestring_ascii s = 34 # s @ [34]"
  by (induction s) (auto simp add: encode_basestring_ascii_def escape_plain)

lemma hour_less: "hour t < 24"
  by (simp add: hour_def)

lemma minute_less: "minute t < 60"
  by (simp add: minute_def)

lemma strftime_HM_eq: "strftime_HM t = pad2 (hour t) @ [58] @ pad2 (minute t)"
proof -
  have "hour t < 100" using hour_less [of t] by linarith
  moreover have "minute t < 100" using minute_less [of t] by linarith
  ultimately show ?thesis
    by (simp add: strftime_HM_def format_0d_2 lit_def)
qed

lemma plain_digit: "d < 10 \<Longrightarrow> plain (48 + d)"
  by (simp add: plain_def)

lemma plain_pad3: "n < 1000 \<Longrightarrow> list_all plain (pad3 n)"
  by (simp add: pad3_def plain_digit div_less_iff_less_mult)

lemma plain_pad2: "n < 100 \<Longrightarrow> list_all plain (pad2 n)"
  by (simp add: pad2_def plain_digit div_less_iff_less_mult)

lemma plain_strftime: "list_all plain (strftime_HM t)"
proof -
  have "hour t < 100" using hour_less [of t] by linarith
  moreover have "minute t < 100" using minute_less [of t] by linarith
  moreover have "plain 58" by (simp add: plain_def)
  ultimately show ?thesis
    by (simp add: strftime_HM_eq plain_pad2)
qed

lemma plain_user_id: "k < 500 \<Longrightarrow> list_all plain (user_ids ! k)"
proof -
  assume k: "k < 500"
  have "list_all plain (lit ''user'')"
    by (simp add: lit_def plain_def)
  moreover from k have "list_all plain (pad3 (Suc k))"
    by (intro plain_pad3) simp
  ultimately show ?thesis
    using k by (simp add: nth_user_ids)
qed

lemma status_cases:
  "status oc = Inr s \<Longrightarrow> s = lit ''active'' \<or> s = lit ''inactive'' \<or> s = lit ''expired''"
proof -
  assume a: "status oc = Inr s"
  have "choice_draw oc mod 3 = 0 \<or> choice_draw oc mod 3 = 1 \<or> choice_draw oc mod 3 = 2"
    by presburger
  with a show ?thesis
    by (auto simp add: status_eq)
qed

lemma plain_status: "status oc = Inr s \<Longrightarrow> list_all plain s"
  by (drule status_cases) (auto simp add: lit_def plain_def)

lemma session_data_Inr:
  "session_data u oc = Inr d \<Longrightarrow>
     \<exists>t s. login_time oc = Inr t \<and> status oc = Inr s \<and>
       d = [(lit ''userId'', u), (lit ''loginTime'', strftime_HM t), (lit ''status'', s)]"
  by (auto simp add: session_data_def split: sum.splits)

lemma entry_line:
  "list_all plain u \<Longrightarrow> list_all plain t \<Longrightarrow> list_all plain s \<Longrightarrow>
     session_entry u [(lit ''userId'', u), (lit ''loginTime'', t), (lit ''status'', s)] =
       session_line u t s"
proof -
  assume p: "list_all plain u" "list_all plain t" "list_all plain s"
  have k: "list_all plain (lit ''userId'')" "list_all plain (lit ''loginTime'')"
    "list_all plain (lit ''status'')"
    by (simp_all add: lit_def plain_def)
  show ?thesis
    by (simp add: session_entry_def session_line_def json_dumps_def encode_plain p k)
       (simp add: lit_def)
qed

lemma sessions_loop_Inr:
  "sessions_loop w i us acc = Inr ss \<Longrightarrow>
     \<exists>ls. ss = acc @ ls \<and> length ls = length us \<and>
       (\<forall>j<length us. \<exists>d. session_data (us ! j) (w (i + j)) = Inr d \<and>
                            ls ! j = session_entry (us ! j) d)"
proof (induction us arbitrary: i acc)
  case Nil
  then show ?case by simp
next
  case (Cons u rest)
  from Cons.prems obtain d where d: "session_data u (w i) = Inr d"
    and l: "sessions_loop w (Suc i) rest (acc @ [session_entry u d]) = Inr ss"
    by (auto split: sum.splits)
  from Cons.IH [OF l] obtain ls where ls: "ss = (acc @ [session_entry u d]) @ ls"
    "length ls = length rest"
    "\<forall>j<length rest. \<exists>d. session_data (rest ! j) (w (Suc i + j)) = Inr d \<and>
                            ls ! j = session_entry (rest ! j) d"
    by blast
  have "\<exists>d'. session_data ((u # rest) ! j) (w (i + j)) = Inr d' \<and>
             (session_entry u d # ls) ! j = session_entry ((u # rest) ! j) d'"
    if "j < length (u # rest)" for j
  proof (cases j)
    case 0
    with d show ?thesis by simp
  next
    case (Suc j')
    with that ls(3) show ?thesis by simp
  qed
  with ls(1,2) show ?case
    by (intro exI [of _ "session_entry u d # ls"]) simp
qed

section \<open>Facts about a run of the script\<close>

lemma plain_not_newline: "list_all plain u \<Longrightarrow> newline \<notin> set u"
  by (auto simp add: list_all_iff plain_def newline_def)

lemma newline_session_entry: "list_all plain u \<Longrightarrow> newline \<notin> set (session_entry u d)"
  using plain_not_newline [of u] newline_json_dumps [of d]
  by (auto simp add: session_entry_def lit_def arrow_def newline_def)

lemma sessions_Inr:
  assumes "sessions w = Inr ss"
  shows "length ss = 500"
    and "j < 500 \<Longrightarrow> \<exists>d. session_data (user_ids ! j) (w j) = Inr d \<and>
                            ss ! j = session_entry (user_ids ! j) d"
proof -
  from assms obtain ls where ls: "ss = [] @ ls" "length ls = length user_ids"
    "\<forall>j<length user_ids. \<exists>d. session_data (user_ids ! j) (w (0 + j)) = Inr d \<and>
                            ls ! j = session_entry (user_ids ! j) d"
    unfolding sessions_def by (blast dest: sessions_loop_Inr)
  from ls show "length ss = 500"
    by (simp add: length_user_ids)
  show "\<exists>d. session_data (user_ids ! j) (w j) = Inr d \<and>
                            ss ! j = session_entry (user_ids ! j) d" if "j < 500"
    using ls that by (simp add: length_user_ids)
qed

lemma sessions_no_newline:
  assumes "sessions w = Inr ss"
  shows "\<forall>l \<in> set ss. newline \<notin> set l"
proof
  fix l
  assume "l \<in> set ss"
  then obtain j where j: "j < length ss" "l = ss ! j"
    by (auto simp add: in_set_conv_nth)
  with sessions_Inr(1) [OF assms] have j500: "j < 500" by simp
  from sessions_Inr(2) [OF assms j500] obtain d where "ss ! j = session_entry (user_ids ! j) d"
    by blast
  with j j500 show "newline \<notin> set l"
    by (simp add: newline_session_entry plain_user_id)
qed

lemma run_Inr:
  assumes "user_sessions_txt w = Inr content"
  shows "sessions w = Inr (split content newline)"
    and "content = join [newline] (split content newline)"
proof -
  from assms obtain ss where ss: "sessions w = Inr ss" "content = join [newline] ss"
    by (auto simp add: user_sessions_txt_def split: sum.splits)
  from sessions_Inr(1) [OF ss(1)] have "ss \<noteq> []" by auto
  with sessions_no_newline [OF ss(1)] have "split content newline = ss"
    unfolding split_def ss(2) by (intro split_from_join)
  with ss show "sessions w = Inr (split content newline)"
    and "content = join [newline] (split content newline)"
    by simp_all
qed

lemma run_generated:
  assumes "user_sessions_txt w = Inr content" and "i < 500"
  shows "\<exists>t s. login_time (w i) = Inr t \<and> status (w i) = Inr s \<and>
           generated w content i
             [(lit ''userId'', user_ids ! i), (lit ''loginTime'', strftime_HM t), (lit ''status'', s)] \<and>
           split content newline ! i = session_line (user_ids ! i) (strftime_HM t) s"
proof -
  from sessions_Inr(2) [OF run_Inr(1) [OF assms(1)] assms(2)]
  obtain d where d: "session_data (user_ids ! i) (w i) = Inr d"
    "split content newline ! i = session_entry (user_ids ! i) d"
    by blast
  from session_data_Inr [OF d(1)] obtain t s where ts: "login_time (w i) = Inr t"
    "status (w i) = Inr s"
    "d = [(lit ''userId'', user_ids ! i), (lit ''loginTime'', strftime_HM t), (lit ''status'', s)]"
    by blast
  have "session_entry (user_ids ! i) d = session_line (user_ids ! i) (strftime_HM t) s"
    unfolding ts(3) using assms(2) ts(2)
    by (intro entry_line plain_user_id plain_strftime plain_status)
  with d ts show ?thesis
    by (auto simp add: generated_def)
qed

lemma login_time_in_range: "clock_in_range oc \<Longrightarrow> \<exists>t. login_time oc = Inr t"
proof -
  assume "clock_in_range oc"
  then have r: "86400000000 \<le> now oc" "now oc < max_micros"
    by (simp_all add: clock_in_range_def)
  have "randint_draw oc mod 1441 < 1441" by simp
  then have "randint_draw oc mod 1441 * 60000000 \<le> 86400000000" by linarith
  with r show ?thesis
    by (simp add: login_time_eq Let_def)
qed

lemma session_data_in_range: "clock_in_range oc \<Longrightarrow> \<exists>d. session_data u oc = Inr d"
  using login_time_in_range [of oc] by (auto simp add: session_data_def status_eq)

lemma sessions_loop_total:
  "\<forall>j<length us. \<exists>d. session_data (us ! j) (w (i + j)) = Inr d \<Longrightarrow>
     \<exists>ss. sessions_loop w i us acc = Inr ss"
proof (induction us arbitrary: i acc)
  case Nil
  then show ?case by simp
next
  case (Cons u rest)
  from Cons.prems obtain d where d: "session_data u (w i) = Inr d"
    by fastforce
  have "\<forall>j<length rest. \<exists>d. session_data (rest ! j) (w (Suc i + j)) = Inr d"
  proof (intro allI impI)
    fix j
    assume "j < length rest"
    then have "Suc j < length (u # rest)" by simp
    with Cons.prems have "\<exists>d. session_data ((u # rest) ! Suc j) (w (i + Suc j)) = Inr d"
      by blast
    then show "\<exists>d. session_data (rest ! j) (w (Suc i + j)) = Inr d" by simp
  qed
  from Cons.IH [OF this] d show ?case by simp
qed

lemma run_total:
  assumes "\<forall>j<500. clock_in_range (w j)"
  shows "\<exists>content. user_sessions_txt w = Inr content"
proof -
  from assms have "\<forall>j<length user_ids. \<exists>d. session_data (user_ids ! j) (w (0 + j)) = Inr d"
    by (simp add: length_user_ids session_data_in_range)
  from sessions_loop_total [OF this] obtain ss where "sessions w = Inr ss"
    unfolding sessions_def by blast
  then show ?thesis
    by (simp add: user_sessions_txt_def)
qed

text \<open>
  Every value of the range is a possible result of \<open>randbelow\<close> and of \<open>randint\<close>, and
  the only way a run ends without writing is the OverflowError of a clock reading out of
  range.
\<close>

lemma randbelow_less: "0 < n \<Longrightarrow> randbelow n r < n"
  by (simp add: randbelow_def)

lemma randbelow_onto: "k < n \<Longrightarrow> randbelow n k = k"
  by (simp add: randbelow_def)

lemma randint_onto: "0 \<le> m \<Longrightarrow> m \<le> 1440 \<Longrightarrow> randint 0 1440 (nat m) = Inr m"
  by (simp add: randint_0_1440)

lemma session_data_Inl: "session_data u oc = Inl e \<Longrightarrow> e = OverflowError \<and> \<not> clock_in_range oc"
proof -
  assume a: "session_data u oc = Inl e"
  then have "login_time oc = Inl e"
    by (auto simp add: session_data_def status_eq split: sum.splits)
  moreover from a have "\<not> clock_in_range oc"
    using session_data_in_range [of oc u] by auto
  ultimately show ?thesis
    by (auto simp add: login_time_eq Let_def split: if_splits)
qed

lemma sessions_loop_Inl:
  "sessions_loop w i us acc = Inl e \<Longrightarrow>
     \<exists>j<length us. session_data (us ! j) (w (i + j)) = Inl e"
proof (induction us arbitrary: i acc)
  case Nil
  then show ?case by simp
next
  case (Cons u rest)
  show ?case
  proof (cases "session_data u (w i)")
    case (Inl e')
    with Cons.prems have "session_data ((u # rest) ! 0) (w (i + 0)) = Inl e"
      by simp
    then show ?thesis by blast
  next
    case (Inr d)
    with Cons.prems have "sessions_loop w (Suc i) rest (acc @ [session_entry u d]) = Inl e"
      by simp
    from Cons.IH [OF this] obtain j where
      "j < length rest" "session_data (rest ! j) (w (Suc i + j)) = Inl e"
      by blast
    then have "Suc j < length (u # rest) \<and>
        session_data ((u # rest) ! Suc j) (w (i + Suc j)) = Inl e"
      by simp
    then show ?thesis by blast
  qed
qed

lemma run_Inl:
  assumes "user_sessions_txt w = Inl e"
  shows "e = OverflowError \<and> (\<exists>j<500. \<not> clock_in_range (w j))"
proof -
  from assms have "sessions_loop w 0 user_ids [] = Inl e"
    by (auto simp add: user_sessions_txt_def sessions_def split: sum.splits)
  from sessions_loop_Inl [OF this] obtain j where
    j: "j < 500" "session_data (user_ids ! j) (w j) = Inl e"
    by (auto simp add: length_user_ids)
  from session_data_Inl [OF j(2)] j(1) show ?thesis by blast
qed

section \<open>The two example runs\<close>

lemma sessions_loop_const:
  "(\<And>u. session_data u oc = Inr (g u)) \<Longrightarrow>
     sessions_loop (\<lambda>_. oc) i us acc = Inr (acc @ map (\<lambda>u. session_entry u (g u)) us)"
  by (induction us arbitrary: i acc) simp_all

lemma example_session_data: "session_data u (example_world i) = Inr (example_data u)"
proof -
  have "strftime_HM 63899999580000000 = lit ''07:53''"
    by (simp add: strftime_HM_eq hour_def minute_def pad2_def lit_def)
  then show ?thesis
    by (simp add: session_data_def login_time_eq status_eq example_world_def example_data_def
        max_micros_def)
qed

lemma other_session_data: "session_data u (other_world i) = Inr (other_data u)"
proof -
  have "strftime_HM 63899913600000000 = lit ''08:00''"
    by (simp add: strftime_HM_eq hour_def minute_def pad2_def lit_def)
  then show ?thesis
    by (simp add: session_data_def login_time_eq status_eq other_world_def other_data_def
        max_micros_def)
qed

lemma example_run: "user_sessions_txt example_world = Inr example_txt"
proof -
  have w: "example_world = (\<lambda>_. example_world 0)"
    by (rule ext) (simp add: example_world_def)
  have "sessions example_world = Inr ([] @ map (\<lambda>u. session_entry u (example_data u)) user_ids)"
    unfolding sessions_def by (subst w, rule sessions_loop_const, rule example_session_data)
  then show ?thesis
    by (simp add: user_sessions_txt_def example_txt_def)
qed

lemma other_run: "user_sessions_txt other_world = Inr other_txt"
proof -
  have w: "other_world = (\<lambda>_. other_world 0)"
    by (rule ext) (simp add: other_world_def)
  have "sessions other_world = Inr ([] @ map (\<lambda>u. session_entry u (other_data u)) user_ids)"
    unfolding sessions_def by (subst w, rule sessions_loop_const, rule other_session_data)
  then show ?thesis
    by (simp add: user_sessions_txt_def other_txt_def)
qed

lemma example_in_range: "clock_in_range (example_world j)"
  by (simp add: clock_in_range_def example_world_def max_micros_def)

lemma digit_bounds:
  "(n::nat) < 1000 \<Longrightarrow> n div 100 < 10 \<and> n div 10 mod 10 < 10 \<and> n mod 10 < 10"
  by (simp add: div_less_iff_less_mult)

lemma is_digit_digit: "d < 10 \<Longrightarrow> is_digit (48 + d)"
  by (simp add: is_digit_def)

lemma number_pad3: "number (pad3 n) = n"
proof -
  have "n = 100 * (n div 100) + n mod 100" by simp
  moreover have "n mod 100 = 10 * (n mod 100 div 10) + n mod 100 mod 10" by simp
  moreover have "n mod 100 div 10 = n div 10 mod 10"
    by (simp add: mod_mult2_eq [of n 10 10, simplified] )
  moreover have "n mod 100 mod 10 = n mod 10"
    by (simp add: mod_mod_cancel)
  ultimately have "n = 100 * (n div 100) + 10 * (n div 10 mod 10) + n mod 10"
    by linarith
  then show ?thesis
    by (simp add: number_def pad3_def)
qed

lemma number_pad2: "number (pad2 n) = n"
  by (simp add: number_def pad2_def)

lemma digits_pad3: "n < 1000 \<Longrightarrow> list_all is_digit (pad3 n)"
  using digit_bounds [of n] by (simp add: pad3_def is_digit_digit)

lemma digits_pad2: "n < 100 \<Longrightarrow> list_all is_digit (pad2 n)"
  by (simp add: pad2_def is_digit_digit div_less_iff_less_mult)

lemma matches_user_id_pad3: "n < 1000 \<Longrightarrow> matches_user_id (lit ''user'' @ pad3 n)"
proof -
  assume "n < 1000"
  then have "list_all is_digit (pad3 n)" by (rule digits_pad3)
  moreover have "length (lit ''user'') = 4" by (simp add: lit_def)
  moreover have "length (pad3 n) = 3" by (simp add: pad3_def)
  ultimately show ?thesis
    by (simp add: matches_user_id_def)
qed

lemma user_ids_differ:
  assumes "i < 500" "j < 500" "i \<noteq> j"
  shows "user_ids ! i \<noteq> user_ids ! j"
proof
  assume "user_ids ! i = user_ids ! j"
  with assms have "pad3 (Suc i) = pad3 (Suc j)"
    by (simp add: nth_user_ids)
  then have "number (pad3 (Suc i)) = number (pad3 (Suc j))" by simp
  with assms(3) show False
    by (simp add: number_pad3)
qed

lemma matches_HH_MM_strftime: "matches_HH_MM (strftime_HM t)"
proof -
  have h: "hour t < 100" "hour t \<le> 23" using hour_less [of t] by linarith+
  have m: "minute t < 100" "minute t \<le> 59" using minute_less [of t] by linarith+
  have "take 2 (strftime_HM t) = pad2 (hour t)" "drop 3 (strftime_HM t) = pad2 (minute t)"
    "strftime_HM t ! 2 = 58" "length (strftime_HM t) = 5"
    by (simp_all add: strftime_HM_eq pad2_def)
  with h m show ?thesis
    by (simp add: matches_HH_MM_def number_pad2 digits_pad2)
qed

lemma dict_lookup:
  "map_of [(lit ''userId'', u), (lit ''loginTime'', t), (lit ''status'', s)] (lit ''userId'') = Some u"
  "map_of [(lit ''userId'', u), (lit ''loginTime'', t), (lit ''status'', s)] (lit ''loginTime'') = Some t"
  "map_of [(lit ''userId'', u), (lit ''loginTime'', t), (lit ''status'', s)] (lit ''status'') = Some s"
  by (simp_all add: lit_def)

lemma login_time_Inr:
  assumes "login_time oc = Inr t"
  shows "\<exists>m. randint 0 1440 (randint_draw oc) = Inr m \<and> 0 \<le> m \<and> m \<le> 1440 \<and>
           int t = int (now oc) - timedelta_minutes m"
proof -
  let ?m = "int (randint_draw oc mod 1441)"
  have r: "randint 0 1440 (randint_draw oc) = Inr ?m"
    by (rule randint_0_1440)
  have "randint_draw oc mod 1441 < 1441" by simp
  then have b: "0 \<le> ?m" "?m \<le> 1440" by linarith+
  from assms have "datetime_sub (now oc) (timedelta_minutes ?m) = Inr t"
    by (simp add: login_time_def r)
  then have "int t = int (now oc) - timedelta_minutes ?m"
    by (auto simp add: datetime_sub_def Let_def split: if_splits)
  with r b show ?thesis by blast
qed

lemma last_session_entry: "session_entry u d \<noteq> [] \<and> last (session_entry u d) = 125"
  by (simp add: session_entry_def json_dumps_def lit_def)

lemma pad3_chars:
  "n < 1000 \<Longrightarrow> 32 \<notin> set (pad3 n) \<and> 34 \<notin> set (pad3 n) \<and> arrow \<notin> set (pad3 n)"
  using digit_bounds [of n] by (auto simp add: pad3_def arrow_def)

lemma takeWhile_upto: "c \<notin> set u \<Longrightarrow> takeWhile (\<lambda>x. x \<noteq> c) (u @ c # rest) = u"
  by (induction u) auto

lemma key_id_line:
  assumes "32 \<notin> set u"
  shows "key_id (session_line u t s) = u"
proof -
  define rest where "rest = arrow # lit '' '' @
     lit ''{\"userId\": \"'' @ u @ lit ''\", \"loginTime\": \"'' @ t @
     lit ''\", \"status\": \"'' @ s @ lit ''\"}''"
  have "drop 8 (session_line u t s) = u @ 32 # rest"
    by (simp add: session_line_def lit_def rest_def)
  moreover from assms have "takeWhile (\<lambda>c. c \<noteq> 32) (u @ 32 # rest) = u"
    by (rule takeWhile_upto)
  ultimately show ?thesis
    by (simp only: key_id_def)
qed

lemma json_userId_line:
  assumes "arrow \<notin> set u" and "34 \<notin> set u"
  shows "json_userId (session_line u t s) = u"
proof -
  define rest where "rest = lit '', \"loginTime\": \"'' @ t @
     lit ''\", \"status\": \"'' @ s @ lit ''\"}''"
  define front where "front = lit ''session:'' @ u @ lit '' ''"
  define after where "after = lit '' '' @ lit ''{\"userId\": \"'' @ u @ 34 # rest"
  have a: "\<forall>c \<in> set front. c \<noteq> arrow"
    using assms(1) by (auto simp add: front_def lit_def arrow_def)
  have "session_line u t s = front @ arrow # after"
    by (simp add: session_line_def front_def after_def rest_def lit_def)
  moreover have "dropWhile (\<lambda>c. c \<noteq> arrow) (front @ arrow # after) = arrow # after"
    using a by (induction front) auto
  moreover have "drop 12 (drop 2 (arrow # after)) = u @ 34 # rest"
    by (simp add: after_def lit_def)
  moreover from assms(2) have "takeWhile (\<lambda>c. c \<noteq> 34) (u @ 34 # rest) = u"
    by (rule takeWhile_upto)
  ultimately show ?thesis
    by (simp only: json_userId_def)
qed

lemma user_id_chars:
  assumes "i < 500"
  shows "32 \<notin> set (user_ids ! i)" "34 \<notin> set (user_ids ! i)" "arrow \<notin> set (user_ids ! i)"
proof -
  from assms have "Suc i < 1000" by simp
  from pad3_chars [OF this] assms
  show "32 \<notin> set (user_ids ! i)" "34 \<notin> set (user_ids ! i)" "arrow \<notin> set (user_ids ! i)"
    by (simp_all add: nth_user_ids lit_def arrow_def)
qed

lemma example_line:
  assumes "i < 500"
  shows "split example_txt newline ! i =
           session_line (user_ids ! i) (lit ''07:53'') (lit ''inactive'')"
proof -
  from run_generated [OF example_run assms] obtain t s where
    g: "generated example_world example_txt i
          [(lit ''userId'', user_ids ! i), (lit ''loginTime'', strftime_HM t), (lit ''status'', s)]"
    and l: "split example_txt newline ! i = session_line (user_ids ! i) (strftime_HM t) s"
    by blast
  from g have "strftime_HM t = lit ''07:53'' \<and> s = lit ''inactive''"
    by (simp add: generated_def example_session_data example_data_def)
  with l show ?thesis by simp
qed

lemma other_line:
  assumes "i < 500"
  shows "split other_txt newline ! i =
           session_line (user_ids ! i) (lit ''08:00'') (lit ''active'')"
proof -
  from run_generated [OF other_run assms] obtain t s where
    g: "generated other_world other_txt i
          [(lit ''userId'', user_ids ! i), (lit ''loginTime'', strftime_HM t), (lit ''status'', s)]"
    and l: "split other_txt newline ! i = session_line (user_ids ! i) (strftime_HM t) s"
    by blast
  from g have "strftime_HM t = lit ''08:00'' \<and> s = lit ''active''"
    by (simp add: generated_def other_session_data other_data_def)
  with l show ?thesis by simp
qed

lemma example_differs: "example_txt \<noteq> other_txt"
proof
  assume "example_txt = other_txt"
  then have "split example_txt newline ! 0 = split other_txt newline ! 0" by simp
  then have "session_line (user_ids ! 0) (lit ''07:53'') (lit ''inactive'') =
             session_line (user_ids ! 0) (lit ''08:00'') (lit ''active'')"
    by (simp add: example_line other_line)
  then show False
    by (simp add: session_line_def lit_def)
qed

lemma key_ids_of_run:
  assumes "user_sessions_txt w = Inr content"
  shows "map key_id (split content newline) = user_ids"
proof (rule nth_equalityI)
  from sessions_Inr(1) [OF run_Inr(1) [OF assms]]
  have len: "length (split content newline) = 500" .
  then show "length (map key_id (split content newline)) = length user_ids"
    by (simp add: length_user_ids)
  fix i
  assume "i < length (map key_id (split content newline))"
  with len have i: "i < 500" by simp
  from run_generated [OF assms i] obtain t s where
    l: "split content newline ! i = session_line (user_ids ! i) (strftime_HM t) s"
    by blast
  have "key_id (session_line (user_ids ! i) (strftime_HM t) s) = user_ids ! i"
    using user_id_chars(1) [OF i] by (rule key_id_line)
  with l i len show "map key_id (split content newline) ! i = user_ids ! i"
    by simp
qed

section \<open>The claims\<close>

text \<open>
  C1. The text written to \<open>user_sessions.txt\<close>, split at the newline character, has
  exactly 500 lines, and they are the 500 entries of \<open>sessions\<close>, one per pass of the
  loop. The text is written whenever every clock reading is in range.
\<close>

theorem output_has_500_lines:
  "((\<forall>j<500. clock_in_range (w j)) \<longrightarrow> (\<exists>content. user_sessions_txt w = Inr content)) \<and>
   (\<forall>content. user_sessions_txt w = Inr content \<longrightarrow>
      length (split content newline) = 500 \<and> sessions w = Inr (split content newline))"
proof (intro conjI allI impI)
  assume "\<forall>j<500. clock_in_range (w j)"
  then show "\<exists>content. user_sessions_txt w = Inr content"
    by (rule run_total)
next
  fix content
  assume r: "user_sessions_txt w = Inr content"
  from run_Inr(1) [OF r] show "sessions w = Inr (split content newline)" .
  then show "length (split content newline) = 500"
    by (rule sessions_Inr(1))
qed

theorem output_has_500_lines_witness:
  "list_all clock_in_range (map example_world [0..<500]) \<and>
   user_sessions_txt example_world = Inr example_txt \<and>
   length (split example_txt newline) = 500 \<and>
   sessions example_world = Inr (split example_txt newline)"
  using output_has_500_lines [of example_world] example_run example_in_range
  by (simp add: list_all_iff)

text \<open>
  C2. In a run that wrote its file, the dictionaries of two different passes have different
  \<open>userId\<close> values, and each \<open>userId\<close> is \<open>user\<close> followed by three digits: in pass
  \<open>i\<close> (counted from 0) the digits are those of \<open>i + 1\<close> zero-padded, so the ids run from
  \<open>user001\<close> to \<open>user500\<close>.
\<close>

theorem userIds_unique_and_patterned:
  assumes "user_sessions_txt w = Inr content" and "i < 500" and "j < 500" and "i \<noteq> j"
  shows "\<exists>di dj ui uj.
           generated w content i di \<and> map_of di (lit ''userId'') = Some ui \<and>
           generated w content j dj \<and> map_of dj (lit ''userId'') = Some uj \<and>
           ui \<noteq> uj \<and> matches_user_id ui \<and> matches_user_id uj \<and>
           ui = lit ''user'' @ pad3 (i + 1) \<and> uj = lit ''user'' @ pad3 (j + 1) \<and>
           number (drop 4 ui) = i + 1 \<and> number (drop 4 uj) = j + 1"
proof -
  from run_generated [OF assms(1,2)] obtain ti si where
    gi: "generated w content i
           [(lit ''userId'', user_ids ! i), (lit ''loginTime'', strftime_HM ti), (lit ''status'', si)]"
    by blast
  from run_generated [OF assms(1,3)] obtain tj sj where
    gj: "generated w content j
           [(lit ''userId'', user_ids ! j), (lit ''loginTime'', strftime_HM tj), (lit ''status'', sj)]"
    by blast
  have ui: "user_ids ! i = lit ''user'' @ pad3 (i + 1)"
    and uj: "user_ids ! j = lit ''user'' @ pad3 (j + 1)"
    using assms(2,3) by (simp_all add: nth_user_ids)
  have mi: "matches_user_id (user_ids ! i)" and mj: "matches_user_id (user_ids ! j)"
    unfolding ui uj using assms(2,3) by (auto intro: matches_user_id_pad3)
  have l4: "length (lit ''user'') = 4" by (simp add: lit_def)
  have ni: "number (drop 4 (user_ids ! i)) = i + 1"
    and nj: "number (drop 4 (user_ids ! j)) = j + 1"
    unfolding ui uj by (simp_all add: l4 number_pad3)
  note d = user_ids_differ [OF assms(2,3,4)]
  show ?thesis
    by (rule exI [of _ "[(lit ''userId'', user_ids ! i), (lit ''loginTime'', strftime_HM ti),
          (lit ''status'', si)]"],
        rule exI [of _ "[(lit ''userId'', user_ids ! j), (lit ''loginTime'', strftime_HM tj),
          (lit ''status'', sj)]"],
        rule exI [of _ "user_ids ! i"], rule exI [of _ "user_ids ! j"])
      (intro conjI gi gj d mi mj ni nj ui uj dict_lookup(1))
qed

theorem userIds_unique_and_patterned_witness:
  "user_sessions_txt example_world = Inr example_txt \<and> (0::nat) < 500 \<and> (499::nat) < 500 \<and>
   (0::nat) \<noteq> 499 \<and>
   (\<exists>di dj. generated example_world example_txt 0 di \<and>
       map_of di (lit ''userId'') = Some (lit ''user001'') \<and>
       generated example_world example_txt 499 dj \<and>
       map_of dj (lit ''userId'') = Some (lit ''user500'') \<and>
       lit ''user001'' \<noteq> lit ''user500'' \<and>
       matches_user_id (lit ''user001'') \<and> matches_user_id (lit ''user500'') \<and>
       number (drop 4 (lit ''user001'')) = 1 \<and> number (drop 4 (lit ''user500'')) = 500)"
proof -
  have a: "lit ''user'' @ pad3 (0 + 1) = lit ''user001''"
    and b: "lit ''user'' @ pad3 (499 + 1) = lit ''user500''"
    by (simp_all add: lit_def pad3_def)
  from userIds_unique_and_patterned [OF example_run, of 0 499]
  show ?thesis
    unfolding a b using example_run by (simp add: a b)
qed

text \<open>
  C3. In a run that wrote its file, whatever the random draws and the clock readings were,
  the \<open>status\<close> of every dictionary is \<open>active\<close>, \<open>inactive\<close> or \<open>expired\<close>.
\<close>

theorem status_in_vocabulary:
  assumes "user_sessions_txt w = Inr content" and "i < 500"
  shows "\<exists>d s. generated w content i d \<and> map_of d (lit ''status'') = Some s \<and>
           s \<in> {lit ''active'', lit ''inactive'', lit ''expired''}"
proof -
  from run_generated [OF assms] obtain t s where
    g: "generated w content i
           [(lit ''userId'', user_ids ! i), (lit ''loginTime'', strftime_HM t), (lit ''status'', s)]"
    and s: "status (w i) = Inr s"
    by blast
  from status_cases [OF s] have "s \<in> {lit ''active'', lit ''inactive'', lit ''expired''}"
    by blast
  then show ?thesis
    by (intro exI [of _ "[(lit ''userId'', user_ids ! i), (lit ''loginTime'', strftime_HM t),
          (lit ''status'', s)]"] exI [of _ s] conjI g dict_lookup(3))
qed

theorem status_in_vocabulary_witness:
  "user_sessions_txt example_world = Inr example_txt \<and> (7::nat) < 500 \<and>
   (\<exists>d s. generated example_world example_txt 7 d \<and> map_of d (lit ''status'') = Some s \<and>
           s \<in> {lit ''active'', lit ''inactive'', lit ''expired''})"
  using status_in_vocabulary [OF example_run, of 7] example_run by simp

text \<open>
  C4. In a run that wrote its file, whatever the random draws and the clock readings were,
  the \<open>loginTime\<close> of every dictionary has the form \<open>HH:MM\<close>: two digits with a value
  from 0 to 23, a colon, two digits with a value from 0 to 59.
\<close>

theorem loginTime_is_HH_MM:
  assumes "user_sessions_txt w = Inr content" and "i < 500"
  shows "\<exists>d t. generated w content i d \<and> map_of d (lit ''loginTime'') = Some t \<and>
           matches_HH_MM t"
proof -
  from run_generated [OF assms] obtain t s where
    g: "generated w content i
           [(lit ''userId'', user_ids ! i), (lit ''loginTime'', strftime_HM t), (lit ''status'', s)]"
    by blast
  then show ?thesis
    by (intro exI [of _ "[(lit ''userId'', user_ids ! i), (lit ''loginTime'', strftime_HM t),
          (lit ''status'', s)]"] exI [of _ "strftime_HM t"] conjI dict_lookup(2)
          matches_HH_MM_strftime)
qed

theorem loginTime_is_HH_MM_witness:
  "user_sessions_txt example_world = Inr example_txt \<and> (7::nat) < 500 \<and>
   (\<exists>d t. generated example_world example_txt 7 d \<and> map_of d (lit ''loginTime'') = Some t \<and>
           matches_HH_MM t)"
  using loginTime_is_HH_MM [OF example_run, of 7] example_run by simp

text \<open>
  C5. In a run that wrote its file, every line is \<open>session:<userId>\<close>, the arrow between
  two spaces, and the JSON object of the pass's dictionary; the dictionary has exactly the
  three fields \<open>userId\<close>, \<open>loginTime\<close> and \<open>status\<close>, the JSON text holds them in this
  order, and the id after \<open>session:\<close> is the dictionary's \<open>userId\<close>.
\<close>

theorem line_format:
  assumes "user_sessions_txt w = Inr content" and "i < 500"
  shows "\<exists>u t s.
           generated w content i [(lit ''userId'', u), (lit ''loginTime'', t), (lit ''status'', s)] \<and>
           split content newline ! i = session_line u t s"
  using run_generated [OF assms] by blast

theorem line_format_witness:
  "user_sessions_txt example_world = Inr example_txt \<and> (7::nat) < 500 \<and>
   generated example_world example_txt 7
     [(lit ''userId'', lit ''user008''), (lit ''loginTime'', lit ''07:53''),
      (lit ''status'', lit ''inactive'')] \<and>
   split example_txt newline ! 7 =
     session_line (lit ''user008'') (lit ''07:53'') (lit ''inactive'')"
proof -
  from line_format [OF example_run, of 7] obtain u t s where
    g: "generated example_world example_txt 7
          [(lit ''userId'', u), (lit ''loginTime'', t), (lit ''status'', s)]"
    and l: "split example_txt newline ! 7 = session_line u t s"
    by auto
  have "user_ids ! 7 = lit ''user008''"
    by (simp add: nth_user_ids pad3_def lit_def)
  with g have "u = lit ''user008'' \<and> t = lit ''07:53'' \<and> s = lit ''inactive''"
    by (simp add: generated_def example_session_data example_data_def)
  with g l example_run show ?thesis by simp
qed

text \<open>
  C6. In a run that wrote its file, the timestamp behind every \<open>loginTime\<close> is the clock
  reading of its pass minus a whole number \<open>m\<close> of minutes, \<open>0 \<le> m \<le> 1440\<close>: it is not
  after the reading and at most 24 hours before it.
\<close>

theorem login_within_24_hours:
  assumes "user_sessions_txt w = Inr content" and "i < 500"
  shows "\<exists>d m t. generated w content i d \<and>
           randint 0 1440 (randint_draw (w i)) = Inr m \<and> 0 \<le> m \<and> m \<le> 1440 \<and>
           login_time (w i) = Inr t \<and> int t = int (now (w i)) - timedelta_minutes m \<and>
           map_of d (lit ''loginTime'') = Some (strftime_HM t) \<and>
           t \<le> now (w i) \<and> now (w i) - t \<le> 86400000000"
proof -
  from run_generated [OF assms] obtain t s where
    t: "login_time (w i) = Inr t"
    and g: "generated w content i
           [(lit ''userId'', user_ids ! i), (lit ''loginTime'', strftime_HM t), (lit ''status'', s)]"
    by blast
  from login_time_Inr [OF t] obtain m where
    m: "randint 0 1440 (randint_draw (w i)) = Inr m" "0 \<le> m" "m \<le> 1440"
      "int t = int (now (w i)) - timedelta_minutes m"
    by blast
  from m(2,3,4) have le: "t \<le> now (w i)" and d: "now (w i) - t \<le> 86400000000"
    by (simp_all add: timedelta_minutes_def)
  show ?thesis
    by (intro exI [of _ "[(lit ''userId'', user_ids ! i), (lit ''loginTime'', strftime_HM t),
          (lit ''status'', s)]"] exI [of _ m] exI [of _ t] conjI g m t le d dict_lookup(2))
qed

theorem login_within_24_hours_witness:
  "user_sessions_txt other_world = Inr other_txt \<and> (7::nat) < 500 \<and>
   (\<exists>d t. generated other_world other_txt 7 d \<and>
      randint 0 1440 (randint_draw (other_world 7)) = Inr 1440 \<and>
      login_time (other_world 7) = Inr t \<and>
      int t = int (now (other_world 7)) - timedelta_minutes 1440 \<and>
      map_of d (lit ''loginTime'') = Some (strftime_HM t) \<and>
      t \<le> now (other_world 7) \<and> now (other_world 7) - t \<le> 86400000000)"
proof -
  have "randint 0 1440 (randint_draw (other_world 7)) = Inr 1440"
    by (simp add: randint_0_1440 other_world_def)
  with login_within_24_hours [OF other_run, of 7] other_run show ?thesis
    by auto
qed

text \<open>
  C8. The text written is the 500 entries joined by single newline characters, with none
  after the last entry: it holds exactly 499 newline characters and does not end with one.
\<close>

theorem newlines_between_lines_only:
  assumes "user_sessions_txt w = Inr content"
  shows "count_list content newline = 499 \<and> content \<noteq> [] \<and> last content \<noteq> newline \<and>
         (\<exists>ss. sessions w = Inr ss \<and> length ss = 500 \<and> content = join [newline] ss)"
proof -
  let ?ss = "split content newline"
  note ss = run_Inr [OF assms]
  note len = sessions_Inr(1) [OF ss(1)]
  from len have ne: "?ss \<noteq> []" by auto
  from sessions_Inr(2) [OF ss(1), of 499] obtain d where
    "?ss ! 499 = session_entry (user_ids ! 499) d"
    by auto
  with len ne have l: "last ?ss \<noteq> []" "last (last ?ss) = 125"
    using last_session_entry [of "user_ids ! 499" d] by (simp_all add: last_conv_nth)
  from ne l(1) have c: "join [newline] ?ss \<noteq> []"
    by (rule join_not_Nil)
  from last_join [OF ne l(1), of "[newline]"] l(2) have la: "last (join [newline] ?ss) \<noteq> newline"
    by (simp add: newline_def)
  from count_join [OF ne sessions_no_newline [OF ss(1)]] len
  have cnt: "count_list (join [newline] ?ss) newline = 499"
    by simp
  from cnt c la ss len show ?thesis
    by (metis)
qed

theorem newlines_between_lines_only_witness:
  "user_sessions_txt example_world = Inr example_txt \<and>
   count_list example_txt newline = 499 \<and> example_txt \<noteq> [] \<and> last example_txt \<noteq> newline \<and>
   (\<exists>ss. sessions example_world = Inr ss \<and> length ss = 500 \<and> example_txt = join [newline] ss)"
  using newlines_between_lines_only [OF example_run] example_run by simp

text \<open>
  C9. In a run that wrote its file, on every line the id read after \<open>session:\<close> equals
  the \<open>userId\<close> value read from the JSON object of the same line, and it is the \<open>userId\<close>
  of the dictionary the line was made from.
\<close>

theorem key_and_value_agree:
  assumes "user_sessions_txt w = Inr content" and "i < 500"
  shows "key_id (split content newline ! i) = json_userId (split content newline ! i) \<and>
         (\<exists>d. generated w content i d \<and>
              map_of d (lit ''userId'') = Some (key_id (split content newline ! i)))"
proof -
  from run_generated [OF assms] obtain t s where
    g: "generated w content i
           [(lit ''userId'', user_ids ! i), (lit ''loginTime'', strftime_HM t), (lit ''status'', s)]"
    and l: "split content newline ! i = session_line (user_ids ! i) (strftime_HM t) s"
    by blast
  note c = user_id_chars [OF assms(2)]
  have k: "key_id (split content newline ! i) = user_ids ! i"
    unfolding l using c(1) by (rule key_id_line)
  have j: "json_userId (split content newline ! i) = user_ids ! i"
    unfolding l using c(3) c(2) by (rule json_userId_line)
  from g have "\<exists>d. generated w content i d \<and> map_of d (lit ''userId'') = Some (user_ids ! i)"
    by (intro exI [of _ "[(lit ''userId'', user_ids ! i), (lit ''loginTime'', strftime_HM t),
          (lit ''status'', s)]"] conjI dict_lookup(1))
  with k j show ?thesis by simp
qed

theorem key_and_value_agree_witness:
  "user_sessions_txt example_world = Inr example_txt \<and> (7::nat) < 500 \<and>
   key_id (split example_txt newline ! 7) = json_userId (split example_txt newline ! 7) \<and>
   (\<exists>d. generated example_world example_txt 7 d \<and>
        map_of d (lit ''userId'') = Some (key_id (split example_txt newline ! 7)))"
proof -
  have "(7::nat) < 500" by simp
  from key_and_value_agree [OF example_run this] example_run this show ?thesis
    by blast
qed

text \<open>
  C10. In a run that wrote its file, the lines are in ascending order of id: for every
  \<open>i\<close> from 1 to 500, the \<open>i\<close>-th line (index \<open>i - 1\<close>) is the entry of the dictionary whose
  \<open>userId\<close> is \<open>user\<close> followed by \<open>i\<close> zero-padded to three digits.
\<close>

theorem lines_in_ascending_id_order:
  assumes "user_sessions_txt w = Inr content" and "i \<in> {1..500}"
  shows "\<exists>d. generated w content (i - 1) d \<and>
           map_of d (lit ''userId'') = Some (lit ''user'' @ pad3 i) \<and>
           key_id (split content newline ! (i - 1)) = lit ''user'' @ pad3 i \<and>
           number (pad3 i) = i"
proof -
  from assms(2) have i: "i - 1 < 500" "Suc (i - 1) = i" by auto
  from run_generated [OF assms(1) i(1)] obtain t s where
    g: "generated w content (i - 1)
           [(lit ''userId'', user_ids ! (i - 1)), (lit ''loginTime'', strftime_HM t), (lit ''status'', s)]"
    and l: "split content newline ! (i - 1) = session_line (user_ids ! (i - 1)) (strftime_HM t) s"
    by blast
  have u: "user_ids ! (i - 1) = lit ''user'' @ pad3 i"
    using nth_user_ids [OF i(1)] i(2) by simp
  have "key_id (session_line (user_ids ! (i - 1)) (strftime_HM t) s) = user_ids ! (i - 1)"
    using user_id_chars(1) [OF i(1)] by (rule key_id_line)
  then have k: "key_id (split content newline ! (i - 1)) = lit ''user'' @ pad3 i"
    by (simp only: l u)
  from g show ?thesis
    unfolding u
    by (intro exI [of _ "[(lit ''userId'', lit ''user'' @ pad3 i), (lit ''loginTime'', strftime_HM t),
          (lit ''status'', s)]"] conjI dict_lookup(1) k number_pad3)
qed

theorem lines_in_ascending_id_order_witness:
  "user_sessions_txt example_world = Inr example_txt \<and> (500::nat) \<in> {1..500} \<and>
   (\<exists>d. generated example_world example_txt 499 d \<and>
      map_of d (lit ''userId'') = Some (lit ''user500'') \<and>
      key_id (split example_txt newline ! 499) = lit ''user500'')"
proof -
  have "lit ''user'' @ pad3 500 = lit ''user500''"
    by (simp add: lit_def pad3_def)
  with lines_in_ascending_id_order [OF example_run, of 500] example_run show ?thesis
    by auto
qed

text \<open>
  C7. Two runs that wrote their files, in any two worlds, have the same shape: each text has
  500 lines, the ids read from the lines are in both the sequence \<open>user_ids\<close>, and line
  \<open>i\<close> of either run is in the line format with the id \<open>user_ids ! i\<close>, a login time of
  the form \<open>HH:MM\<close> and a status of the vocabulary. The login times and statuses may
  differ between the runs, as they do in the two example runs.
\<close>

theorem two_runs_same_shape:
  assumes "user_sessions_txt w1 = Inr c1" and "user_sessions_txt w2 = Inr c2"
  shows "length (split c1 newline) = 500 \<and> length (split c2 newline) = 500 \<and>
         map key_id (split c1 newline) = user_ids \<and> map key_id (split c2 newline) = user_ids \<and>
         (\<forall>i<500. \<exists>t1 s1 t2 s2.
            split c1 newline ! i = session_line (user_ids ! i) t1 s1 \<and>
            split c2 newline ! i = session_line (user_ids ! i) t2 s2 \<and>
            matches_user_id (user_ids ! i) \<and> matches_HH_MM t1 \<and> matches_HH_MM t2 \<and>
            s1 \<in> {lit ''active'', lit ''inactive'', lit ''expired''} \<and>
            s2 \<in> {lit ''active'', lit ''inactive'', lit ''expired''})"
proof (intro conjI allI impI)
  show "length (split c1 newline) = 500"
    by (rule sessions_Inr(1) [OF run_Inr(1) [OF assms(1)]])
  show "length (split c2 newline) = 500"
    by (rule sessions_Inr(1) [OF run_Inr(1) [OF assms(2)]])
  show "map key_id (split c1 newline) = user_ids"
    by (rule key_ids_of_run [OF assms(1)])
  show "map key_id (split c2 newline) = user_ids"
    by (rule key_ids_of_run [OF assms(2)])
next
  fix i :: nat
  assume i: "i < 500"
  from run_generated [OF assms(1) i] obtain t1 s1 where
    1: "status (w1 i) = Inr s1"
      "split c1 newline ! i = session_line (user_ids ! i) (strftime_HM t1) s1"
    by blast
  from run_generated [OF assms(2) i] obtain t2 s2 where
    2: "status (w2 i) = Inr s2"
      "split c2 newline ! i = session_line (user_ids ! i) (strftime_HM t2) s2"
    by blast
  from status_cases [OF 1(1)] have v1: "s1 \<in> {lit ''active'', lit ''inactive'', lit ''expired''}"
    by blast
  from status_cases [OF 2(1)] have v2: "s2 \<in> {lit ''active'', lit ''inactive'', lit ''expired''}"
    by blast
  from i have "Suc i < 1000" by simp
  then have u: "matches_user_id (user_ids ! i)"
    using matches_user_id_pad3 [of "Suc i"] i by (simp add: nth_user_ids)
  show "\<exists>t1 s1 t2 s2.
            split c1 newline ! i = session_line (user_ids ! i) t1 s1 \<and>
            split c2 newline ! i = session_line (user_ids ! i) t2 s2 \<and>
            matches_user_id (user_ids ! i) \<and> matches_HH_MM t1 \<and> matches_HH_MM t2 \<and>
            s1 \<in> {lit ''active'', lit ''inactive'', lit ''expired''} \<and>
            s2 \<in> {lit ''active'', lit ''inactive'', lit ''expired''}"
    by (intro exI [of _ "strftime_HM t1"] exI [of _ s1] exI [of _ "strftime_HM t2"] exI [of _ s2]
          conjI 1(2) 2(2) u v1 v2 matches_HH_MM_strftime)
qed

theorem two_runs_same_shape_witness:
  "user_sessions_txt example_world = Inr example_txt \<and>
   user_sessions_txt other_world = Inr other_txt \<and>
   example_txt \<noteq> other_txt \<and>
   length (split example_txt newline) = 500 \<and> length (split other_txt newline) = 500 \<and>
   map key_id (split example_txt newline) = user_ids \<and>
   map key_id (split other_txt newline) = user_ids \<and>
   split example_txt newline ! 0 =
     session_line (lit ''user001'') (lit ''07:53'') (lit ''inactive'') \<and>
   split other_txt newline ! 0 =
     session_line (lit ''user001'') (lit ''08:00'') (lit ''active'')"
proof -
  have u: "user_ids ! 0 = lit ''user001''"
    by (simp add: nth_user_ids pad3_def lit_def)
  from two_runs_same_shape [OF example_run other_run] example_run other_run example_differs
    example_line [of 0] other_line [of 0] u
  show ?thesis by simp
qed

end
